theory Spec2Isabelle
  imports Main "HOL-Library.AList" "HOL-Library.Sublist"
    "HOL-Library.Char_ord" "HOL-Library.List_Lexorder"
begin

section \<open>Errors\<close>

text \<open>
  Every exception the modelled code can raise is a value of \<open>error\<close>; an operation that
  may raise returns \<open>error + 'a\<close> with \<open>Inl\<close> for the exception.
\<close>

datatype error =
    FileNotFoundError
  | FileExistsError
  | NotADirectoryError
  | IsADirectoryError
  | SameFileError
  | OSError
  | ValueError
  | KeyError string
  | AttributeError string
  | TemplateError string

section \<open>The file system\<close>

text \<open>
  A path is the list of its components below the root, as \<open>pathlib\<close> holds it. The file
  system is a tree: a file with its content, or a directory with its entries in the order
  the operating system lists them. There are no symbolic links, no permissions and no
  metadata, and the components \<open>..\<close> are not interpreted, so a path stands for one
  location only when it has none.
\<close>

type_synonym path = "string list"

datatype node = File string | Dir "(string \<times> node) list"

text \<open>\<open>os.stat\<close>: the node a path leads to.\<close>

fun stat :: "node \<Rightarrow> path \<Rightarrow> error + node" where
  "stat n [] = Inr n"
| "stat (File bs) (c # cs) = Inl NotADirectoryError"
| "stat (Dir es) (c # cs) =
     (case map_of es c of None \<Rightarrow> Inl FileNotFoundError | Some n \<Rightarrow> stat n cs)"

definition lookup :: "node \<Rightarrow> path \<Rightarrow> node option" where
  "lookup fs p = (case stat fs p of Inl e \<Rightarrow> None | Inr n \<Rightarrow> Some n)"

text \<open>\<open>Path.exists\<close>, \<open>Path.is_dir\<close> and \<open>Path.is_file\<close>.\<close>

definition exists :: "node \<Rightarrow> path \<Rightarrow> bool" where
  "exists fs p = (case lookup fs p of None \<Rightarrow> False | Some n \<Rightarrow> True)"

definition is_dir :: "node \<Rightarrow> path \<Rightarrow> bool" where
  "is_dir fs p = (case lookup fs p of Some (Dir es) \<Rightarrow> True | _ \<Rightarrow> False)"

definition is_file :: "node \<Rightarrow> path \<Rightarrow> bool" where
  "is_file fs p = (case lookup fs p of Some (File bs) \<Rightarrow> True | _ \<Rightarrow> False)"


text \<open>Two paths are apart when neither lies at or below the other.\<close>

definition apart :: "path \<Rightarrow> path \<Rightarrow> bool" where
  "apart p q = (\<not> prefix p q \<and> \<not> prefix q p)"

text \<open>
  \<open>Path.mkdir(parents=True, exist_ok=True)\<close>: an existing directory is left alone,
  missing directories are created down to the path, and a file on the way is an error
  (\<open>FileExistsError\<close> at the path itself, \<open>NotADirectoryError\<close> above it); nothing is
  created when it fails.
\<close>

fun new_dirs :: "path \<Rightarrow> node" where
  "new_dirs [] = Dir []"
| "new_dirs (c # cs) = Dir [(c, new_dirs cs)]"

fun mkdir_parents :: "node \<Rightarrow> path \<Rightarrow> error + node" where
  "mkdir_parents (Dir es) [] = Inr (Dir es)"
| "mkdir_parents (File bs) [] = Inl FileExistsError"
| "mkdir_parents (File bs) (c # cs) = Inl NotADirectoryError"
| "mkdir_parents (Dir es) (c # cs) =
     (case map_of es c of
        None \<Rightarrow> Inr (Dir (AList.update c (new_dirs cs) es))
      | Some n \<Rightarrow>
          (case mkdir_parents n cs of
             Inl e \<Rightarrow> Inl e
           | Inr n' \<Rightarrow> Inr (Dir (AList.update c n' es))))"

text \<open>
  Placing a node at a path whose parent directory exists, in place of whatever the path
  held. This is what opening a file for writing and what creating a directory tree come to.
\<close>

fun graft :: "node \<Rightarrow> path \<Rightarrow> node \<Rightarrow> error + node" where
  "graft n [] t = Inr t"
| "graft (File bs) (c # cs) t = Inl NotADirectoryError"
| "graft (Dir es) (c # cs) t =
     (case map_of es c of
        None \<Rightarrow> (if cs = [] then Inr (Dir (AList.update c t es)) else Inl FileNotFoundError)
      | Some n \<Rightarrow>
          (case graft n cs t of
             Inl e \<Rightarrow> Inl e
           | Inr n' \<Rightarrow> Inr (Dir (AList.update c n' es))))"

text \<open>
  \<open>Path.write_text\<close>: opens the path for writing, which creates the file or truncates it,
  and fails on a directory or when the parent directory is missing.
\<close>

definition write_text :: "node \<Rightarrow> path \<Rightarrow> string \<Rightarrow> error + node" where
  "write_text fs p s = (if is_dir fs p then Inl IsADirectoryError else graft fs p (File s))"

text \<open>\<open>Path.iterdir\<close>: the names of a directory's entries.\<close>

definition iterdir :: "node \<Rightarrow> path \<Rightarrow> error + string list" where
  "iterdir fs p =
     (case stat fs p of
        Inl e \<Rightarrow> Inl e
      | Inr (File bs) \<Rightarrow> Inl NotADirectoryError
      | Inr (Dir es) \<Rightarrow> Inr (map fst es))"

text \<open>
  \<open>shutil.rmtree\<close>: removes a directory with everything below it; a file or a missing
  path is an error. The builder never calls it on the root, which cannot be removed.
\<close>

fun rmtree :: "node \<Rightarrow> path \<Rightarrow> error + node" where
  "rmtree n [] = Inl OSError"
| "rmtree (File bs) (c # cs) = Inl NotADirectoryError"
| "rmtree (Dir es) (c # cs) =
     (case map_of es c of
        None \<Rightarrow> Inl FileNotFoundError
      | Some n \<Rightarrow>
          (if cs = [] then
             (case n of
                File bs \<Rightarrow> Inl NotADirectoryError
              | Dir es' \<Rightarrow> Inr (Dir (AList.delete c es)))
           else
             (case rmtree n cs of
                Inl e \<Rightarrow> Inl e
              | Inr n' \<Rightarrow> Inr (Dir (AList.update c n' es)))))"

text \<open>
  \<open>shutil.copytree(src, dst)\<close>: lists the source directory, creates the destination with
  \<open>os.makedirs\<close> (an existing destination is a \<open>FileExistsError\<close>) and copies every entry
  below it. The copy is the source tree as it was when the call began; a destination
  inside its own source, where the library recurses without end, is outside this model.
\<close>

definition copytree :: "node \<Rightarrow> path \<Rightarrow> path \<Rightarrow> error + node" where
  "copytree fs src dst =
     (case stat fs src of
        Inl e \<Rightarrow> Inl e
      | Inr (File bs) \<Rightarrow> Inl NotADirectoryError
      | Inr (Dir es) \<Rightarrow>
          (if exists fs dst then Inl FileExistsError
           else
             (case mkdir_parents fs dst of
                Inl e \<Rightarrow> Inl e
              | Inr fs1 \<Rightarrow> graft fs1 dst (Dir es))))"

text \<open>
  \<open>shutil.copy2(src, dst)\<close>: when the destination is a directory the file goes into it
  under the source's own name; copying a file onto itself is a \<open>SameFileError\<close>; the
  source is opened for reading, then the destination for writing.
\<close>

definition copy2 :: "node \<Rightarrow> path \<Rightarrow> path \<Rightarrow> error + node" where
  "copy2 fs src dst =
     (let dst = (if is_dir fs dst then dst @ (if src = [] then [] else [last src]) else dst) in
      if src = dst \<and> exists fs src then Inl SameFileError
      else
        (case stat fs src of
           Inl e \<Rightarrow> Inl e
         | Inr (Dir es) \<Rightarrow> Inl IsADirectoryError
         | Inr (File bs) \<Rightarrow> write_text fs dst bs))"

section \<open>Config (config.py)\<close>

text \<open>
  The process environment \<open>os.environ\<close> is a dictionary from names to strings.
\<close>

type_synonym environ = "string \<rightharpoonup> string"

text \<open>\<open>Config.get\<close>: \<open>os.environ.get(key, default)\<close>; the default may be \<open>None\<close>.\<close>

definition get :: "environ \<Rightarrow> string \<Rightarrow> string option \<Rightarrow> string option" where
  "get environ key dflt = (case environ key of None \<Rightarrow> dflt | Some v \<Rightarrow> Some v)"

text \<open>
  \<open>Config.require\<close>: looks the key up with \<open>os.environ.get(key)\<close> and raises
  \<open>KeyError(f"Required environment variable '{key}' is not set")\<close> when the result
  is \<open>None\<close>.
\<close>

definition require_message :: "string \<Rightarrow> string" where
  "require_message key =
     ''Required environment variable '' @ [CHR 0x27] @ key @ [CHR 0x27] @ '' is not set''"

definition require :: "environ \<Rightarrow> string \<Rightarrow> error + string" where
  "require environ key =
     (case get environ key None of
        None \<Rightarrow> Inl (KeyError (require_message key))
      | Some v \<Rightarrow> Inr v)"

subsection \<open>Attribute reflection: \<open>to_dict\<close>\<close>










section \<open>Paths from strings\<close>

text \<open>
  \<open>pathlib\<close> splits a string at the slashes and drops the empty components and the
  components \<open>.\<close>; joining a path with an absolute string gives that string's path.
\<close>

fun split_slash :: "string \<Rightarrow> string list" where
  "split_slash [] = [[]]"
| "split_slash (c # cs) =
     (if c = CHR ''/'' then [] # split_slash cs
      else (case split_slash cs of [] \<Rightarrow> [[c]] | x # xs \<Rightarrow> (c # x) # xs))"

definition parts :: "string \<Rightarrow> path" where
  "parts s = filter (\<lambda>c. c \<noteq> [] \<and> c \<noteq> ''.'') (split_slash s)"

definition is_absolute :: "string \<Rightarrow> bool" where
  "is_absolute s = (case s of [] \<Rightarrow> False | c # cs \<Rightarrow> c = CHR ''/'')"

definition joinpath :: "path \<Rightarrow> string \<Rightarrow> path" where
  "joinpath base s = (if is_absolute s then parts s else base @ parts s)"

section \<open>Glob patterns\<close>

text \<open>
  \<open>fnmatch.fnmatchcase\<close> on patterns made of literal characters, \<open>*\<close> (any run of
  characters) and \<open>?\<close> (any one character); the comparison is case-sensitive. Bracket
  expressions are not modelled.
\<close>

fun fnmatchcase :: "string \<Rightarrow> string \<Rightarrow> bool" where
  "fnmatchcase [] [] = True"
| "fnmatchcase (c # cs) [] = False"
| "fnmatchcase [] (p # ps) = (p = CHR ''*'' \<and> fnmatchcase [] ps)"
| "fnmatchcase (c # cs) (p # ps) =
     (if p = CHR ''*'' then fnmatchcase (c # cs) ps \<or> fnmatchcase cs (p # ps)
      else (p = CHR ''?'' \<or> p = c) \<and> fnmatchcase cs ps)"

text \<open>
  \<open>PurePath.match\<close> for such patterns: an empty pattern is a \<open>ValueError\<close>; an absolute
  pattern must match the whole path; a relative one is matched from the right, component
  by component, against the parts of the path, of which the root is the first.
\<close>

definition path_match :: "path \<Rightarrow> string \<Rightarrow> error + bool" where
  "path_match p pattern =
     (let pat_parts = parts pattern; path_parts = ''/'' # p in
      if is_absolute pattern then
        Inr (length pat_parts = length p \<and> list_all2 fnmatchcase p pat_parts)
      else if pat_parts = [] then Inl ValueError
      else if length path_parts < length pat_parts then Inr False
      else Inr (list_all2 fnmatchcase
             (drop (length path_parts - length pat_parts) path_parts) pat_parts))"

section \<open>SiteBuilder (builder.py)\<close>

text \<open>
  The builder holds its three directories, already joined with the base path, and the
  Jinja2 environment. Of the environment only rendering matters here: given the file
  system, a template name and a context, \<open>get_template\<close> followed by \<open>render\<close> raises or
  returns the text. A context is a dictionary from names to values of any type \<open>'v\<close>.
\<close>

type_synonym 'v template_context = "string \<rightharpoonup> 'v"

record 'v SiteBuilder =
  template_dir :: path
  static_dir :: path
  build_dir :: path
  env :: "node \<Rightarrow> string \<Rightarrow> 'v template_context \<Rightarrow> error + string"


subsection \<open>\<open>ensure_build_dirs\<close>\<close>



subsection \<open>\<open>copy_static_assets\<close>\<close>

text \<open>
  \<open>PurePath.match\<close> is a parameter of the model: a function from a path and a pattern
  to a truth value, or to an error (the library rejects an empty pattern).
  \<open>any(item.match(pattern) for pattern in exclude_patterns)\<close> stops at the first match.
\<close>

type_synonym matcher = "path \<Rightarrow> string \<Rightarrow> error + bool"

fun any_match :: "matcher \<Rightarrow> path \<Rightarrow> string list \<Rightarrow> error + bool" where
  "any_match m item [] = Inr False"
| "any_match m item (pattern # patterns) =
     (case m item pattern of
        Inl e \<Rightarrow> Inl e
      | Inr matched \<Rightarrow> (if matched then Inr True else any_match m item patterns))"

text \<open>
  The copy of one entry that is not excluded: a directory replaces the destination
  directory, which is removed first when it exists; anything else is copied as a file.
\<close>

definition copy_item :: "node \<Rightarrow> path \<Rightarrow> path \<Rightarrow> (error + unit) \<times> node" where
  "copy_item fs item dest =
     (if is_dir fs item then
        (case (if exists fs dest then rmtree fs dest else Inr fs) of
           Inl e \<Rightarrow> (Inl e, fs)
         | Inr fs1 \<Rightarrow>
             (case copytree fs1 item dest of
                Inl e \<Rightarrow> (Inl e, fs1)
              | Inr fs2 \<Rightarrow> (Inr (), fs2)))
      else
        (case copy2 fs item dest of
           Inl e \<Rightarrow> (Inl e, fs)
         | Inr fs1 \<Rightarrow> (Inr (), fs1)))"

text \<open>
  The loop \<open>for item in self.static_dir.iterdir()\<close> over the listed names. An entry's
  name is one component, so \<open>item\<close> and \<open>static_dest / item.name\<close> are the two
  directories extended by the name.
\<close>

fun copy_items ::
  "matcher \<Rightarrow> path \<Rightarrow> path \<Rightarrow> string list \<Rightarrow> node \<Rightarrow> string list \<Rightarrow> (error + unit) \<times> node" where
  "copy_items m static static_dest exclude_patterns fs [] = (Inr (), fs)"
| "copy_items m static static_dest exclude_patterns fs (name # names) =
     (let item = static @ [name]; dest = static_dest @ [name] in
      case any_match m item exclude_patterns of
        Inl e \<Rightarrow> (Inl e, fs)
      | Inr should_exclude \<Rightarrow>
          (if should_exclude then copy_items m static static_dest exclude_patterns fs names
           else
             (case copy_item fs item dest of
                (Inl e, fs1) \<Rightarrow> (Inl e, fs1)
              | (Inr u, fs1) \<Rightarrow> copy_items m static static_dest exclude_patterns fs1 names)))"

definition copy_static_assets ::
  "matcher \<Rightarrow> 'v SiteBuilder \<Rightarrow> node \<Rightarrow> string list option \<Rightarrow> (error + unit) \<times> node" where
  "copy_static_assets m b fs exclude_patterns =
     (if \<not> exists fs (static_dir b) then (Inr (), fs)
      else
        (let exclude_patterns = (case exclude_patterns of None \<Rightarrow> [] | Some ps \<Rightarrow> ps);
             static_dest = joinpath (build_dir b) ''static''
         in case mkdir_parents fs static_dest of
              Inl e \<Rightarrow> (Inl e, fs)
            | Inr fs1 \<Rightarrow>
                (case iterdir fs1 (static_dir b) of
                   Inl e \<Rightarrow> (Inl e, fs1)
                 | Inr names \<Rightarrow>
                     copy_items m (static_dir b) static_dest exclude_patterns fs1 names)))"

subsection \<open>\<open>render_template\<close> and \<open>render_pages\<close>\<close>








section \<open>Utilities (utils.py)\<close>

text \<open>
  \<open>hashlib\<close> is a parameter: \<open>new\<close> raises on an algorithm it does not know or returns a
  hash object, \<open>update\<close> feeds it bytes, \<open>hexdigest\<close> reads the digest.
\<close>

record 'h hashlib =
  new :: "string \<Rightarrow> error + 'h"
  update :: "'h \<Rightarrow> string \<Rightarrow> 'h"
  hexdigest :: "'h \<Rightarrow> string"

text \<open>\<open>open(file_path, "rb")\<close>: the bytes still to be read.\<close>

definition open_rb :: "node \<Rightarrow> path \<Rightarrow> error + string" where
  "open_rb fs p =
     (case stat fs p of
        Inl e \<Rightarrow> Inl e
      | Inr (Dir es) \<Rightarrow> Inl IsADirectoryError
      | Inr (File bs) \<Rightarrow> Inr bs)"

text \<open>
  The loop \<open>for chunk in iter(lambda: f.read(8192), b"")\<close>: \<open>read\<close> returns the next 8192
  bytes, fewer at the end, and the loop stops at the first empty chunk.
\<close>

function update_chunks :: "'h hashlib \<Rightarrow> 'h \<Rightarrow> string \<Rightarrow> 'h" where
  "update_chunks H hash_func f =
     (let chunk = take 8192 f in
      if chunk = [] then hash_func
      else update_chunks H (update H hash_func chunk) (drop 8192 f))"
  by pat_completeness auto
termination
  by (relation "measure (\<lambda>(H, h, f). length f)") auto

definition get_file_hash :: "'h hashlib \<Rightarrow> node \<Rightarrow> path \<Rightarrow> string \<Rightarrow> error + string" where
  "get_file_hash H fs file_path algorithm =
     (case new H algorithm of
        Inl e \<Rightarrow> Inl e
      | Inr hash_func \<Rightarrow>
          (case open_rb fs file_path of
             Inl e \<Rightarrow> Inl e
           | Inr f \<Rightarrow> Inr (hexdigest H (update_chunks H hash_func f))))"

text \<open>Python's slice \<open>s[:n]\<close>: a negative \<open>n\<close> counts from the end.\<close>

definition slice_to :: "string \<Rightarrow> int \<Rightarrow> string" where
  "slice_to s n = (if 0 \<le> n then take (nat n) s else take (length s - nat (- n)) s)"

text \<open>\<open>get_file_hash_short\<close> calls \<open>get_file_hash\<close> with its default algorithm, \<open>md5\<close>.\<close>

definition get_file_hash_short :: "'h hashlib \<Rightarrow> node \<Rightarrow> path \<Rightarrow> int \<Rightarrow> error + string" where
  "get_file_hash_short H fs file_path length' =
     (case get_file_hash H fs file_path ''md5'' of
        Inl e \<Rightarrow> Inl e
      | Inr digest \<Rightarrow> Inr (slice_to digest length'))"

section \<open>Concrete instances\<close>






text \<open>
  A stand-in for \<open>hashlib\<close> that knows the algorithm \<open>md5\<close> alone. The hash object
  collects the bytes it is fed; the digest of \<open>hello world\<close>, the content of the test
  suite's file, is its MD5 digest, and any other content gets a digest of the same length.
\<close>

definition hashlib_double :: "string hashlib" where
  "hashlib_double =
     \<lparr>new = (\<lambda>algorithm. if algorithm = ''md5'' then Inr [] else Inl ValueError),
      update = (\<lambda>hash_func chunk. hash_func @ chunk),
      hexdigest = (\<lambda>hash_func.
        if hash_func = ''hello world'' then ''5eb63bbbe01eeed093cb22bb8f5acdc3''
        else replicate 32 (CHR ''0''))\<rparr>"

definition hash_project :: node where
  "hash_project =
     Dir [(''project'',
       Dir [(''test.txt'', File ''hello world''), (''copy.txt'', File ''hello world'')])]"

text \<open>
  A project that was built before: \<open>build/static/css\<close> holds a file \<open>old.css\<close> that the
  source no longer has.
\<close>

definition stale_project :: node where
  "stale_project =
     Dir [(''project'',
       Dir [(''src'',
         Dir [(''static'',
                Dir [(''style.css'', File ''body { color: black; }''),
                     (''css'', Dir [(''main.css'', File ''.main { display: block; }'')])])]),
            (''build'',
         Dir [(''static'',
                Dir [(''css'', Dir [(''old.css'', File ''.old { }'')])])])])]"

section \<open>Properties of Config\<close>









text \<open>
  C5. \<open>require\<close> fails exactly when the key is absent from the environment, the error is
  a \<open>KeyError\<close> whose message contains the key; when the key is present its value is
  returned. \<open>get\<close> on an absent key with a default returns the default (its result type
  has no error).
\<close>

theorem C5_require_get:
  "((\<exists>e. require environ key = Inl e) \<longleftrightarrow> environ key = None)
   \<and> (environ key = None \<longrightarrow>
        (\<exists>pre post. require environ key = Inl (KeyError (pre @ key @ post)))
        \<and> get environ key (Some d) = Some d)
   \<and> (\<forall>v. environ key = Some v \<longrightarrow> require environ key = Inr v \<and> get environ key dflt = Some v)"
proof -
  have "require_message key =
      (''Required environment variable '' @ [CHR 0x27]) @ key @ ([CHR 0x27] @ '' is not set'')"
    by (simp add: require_message_def)
  then have msg: "\<exists>pre post. require_message key = pre @ key @ post"
    by blast
  show ?thesis
    using msg by (cases "environ key") (auto simp: require_def get_def)
qed

theorem C5_require_get_witness:
  "((\<exists>e. require [''HOME'' \<mapsto> ''/root''] ''SITE_NAME'' = Inl e)
      \<longleftrightarrow> [''HOME'' \<mapsto> ''/root''] ''SITE_NAME'' = None)
   \<and> require [''HOME'' \<mapsto> ''/root''] ''SITE_NAME''
       = Inl (KeyError ''Required environment variable 'SITE_NAME' is not set'')
   \<and> get [''HOME'' \<mapsto> ''/root''] ''SITE_NAME'' (Some ''My Site'') = Some ''My Site''
   \<and> require [''HOME'' \<mapsto> ''/root''] ''HOME'' = Inr ''/root''"
  using C5_require_get [of "[''HOME'' \<mapsto> ''/root'']" "''SITE_NAME''" "''My Site''" None]
    C5_require_get [of "[''HOME'' \<mapsto> ''/root'']" "''HOME''" "''x''" None]
  by (simp add: require_def get_def require_message_def)

section \<open>Lemmas about the file system\<close>

lemma lookup_Nil [simp]: "lookup n [] = Some n"
  by (simp add: lookup_def)

lemma lookup_File_Cons [simp]: "lookup (File bs) (c # cs) = None"
  by (simp add: lookup_def)

lemma lookup_Dir_Cons [simp]:
  "lookup (Dir es) (c # cs) = (case map_of es c of None \<Rightarrow> None | Some n \<Rightarrow> lookup n cs)"
  by (simp add: lookup_def split: option.splits)

lemma stat_lookup: "stat fs p = Inr n \<longleftrightarrow> lookup fs p = Some n"
  by (simp add: lookup_def split: sum.splits)

lemma lookup_append:
  "lookup fs (p @ q) = (case lookup fs p of None \<Rightarrow> None | Some n \<Rightarrow> lookup n q)"
  by (induction fs p rule: stat.induct) (auto split: option.splits)

lemma is_dir_simps [simp]:
  "is_dir (Dir es) [] = True"
  "is_dir (File bs) p = False"
  "is_dir (Dir es) (c # cs) = (case map_of es c of None \<Rightarrow> False | Some n \<Rightarrow> is_dir n cs)"
  by (cases p; auto simp: is_dir_def split: option.splits)+

lemma is_file_simps [simp]:
  "is_file (Dir es) [] = False"
  "is_file (File bs) [] = True"
  "is_file (File bs) (c # cs) = False"
  "is_file (Dir es) (c # cs) = (case map_of es c of None \<Rightarrow> False | Some n \<Rightarrow> is_file n cs)"
  by (auto simp: is_file_def split: option.splits)

lemma exists_simps [simp]:
  "exists n [] = True"
  "exists (File bs) (c # cs) = False"
  "exists (Dir es) (c # cs) = (case map_of es c of None \<Rightarrow> False | Some n \<Rightarrow> exists n cs)"
  by (auto simp: exists_def split: option.splits)

lemma is_dir_lookup: "is_dir fs p \<longleftrightarrow> (\<exists>es. lookup fs p = Some (Dir es))"
  by (auto simp: is_dir_def split: option.splits node.splits)

lemma is_file_lookup: "is_file fs p \<longleftrightarrow> (\<exists>bs. lookup fs p = Some (File bs))"
  by (auto simp: is_file_def split: option.splits node.splits)

lemma exists_lookup: "exists fs p \<longleftrightarrow> lookup fs p \<noteq> None"
  by (auto simp: exists_def split: option.splits)

lemma exists_kinds: "exists fs p \<longleftrightarrow> is_dir fs p \<or> is_file fs p"
  by (auto simp: exists_def is_dir_def is_file_def split: option.splits node.splits)

lemma not_dir_and_file: "is_dir fs p \<Longrightarrow> \<not> is_file fs p"
  by (auto simp: is_dir_def is_file_def split: option.splits node.splits)

text \<open>Everything above an existing path is a directory.\<close>

lemma is_dir_above: "exists fs p \<Longrightarrow> strict_prefix q p \<Longrightarrow> is_dir fs q"
proof (induction fs p arbitrary: q rule: stat.induct)
  case (1 n)
  then show ?case by simp
next
  case (2 bs c cs)
  then show ?case by simp
next
  case (3 es c cs)
  then show ?case
    by (cases q) (auto split: option.splits)
qed

lemma is_dir_prefix: "is_dir fs p \<Longrightarrow> prefix q p \<Longrightarrow> is_dir fs q"
  using is_dir_above [of fs p q] by (auto simp: exists_kinds strict_prefix_def)

subsection \<open>\<open>mkdir_parents\<close>\<close>

lemma lookup_new_dirs:
  "lookup (new_dirs p) q = (if prefix q p then Some (new_dirs (drop (length q) p)) else None)"
proof (induction p arbitrary: q)
  case Nil
  then show ?case by (cases q) auto
next
  case (Cons c cs)
  then show ?case by (cases q) auto
qed

lemma is_dir_new_dirs [simp]: "is_dir (new_dirs p) q = prefix q p"
proof (induction p arbitrary: q)
  case Nil
  then show ?case by (cases q) auto
next
  case (Cons c cs)
  then show ?case by (cases q) auto
qed


lemma mkdir_parents_frame:
  "mkdir_parents fs p = Inr fs' \<Longrightarrow> \<not> prefix q p \<Longrightarrow> lookup fs' q = lookup fs q"
proof (induction fs p arbitrary: fs' q rule: mkdir_parents.induct)
  case (4 es c cs)
  then show ?case
    by (cases q) (auto simp: update_conv' lookup_new_dirs split: option.splits sum.splits if_splits)
qed auto

lemma mkdir_parents_is_dir:
  "mkdir_parents fs p = Inr fs' \<Longrightarrow> prefix q p \<Longrightarrow> is_dir fs' q"
proof (induction fs p arbitrary: fs' q rule: mkdir_parents.induct)
  case (4 es c cs)
  then show ?case
    by (cases q) (auto simp: update_conv' split: option.splits sum.splits)
qed auto

text \<open>It fails exactly when a file lies on the way.\<close>

lemma mkdir_parents_fails:
  "(\<exists>e. mkdir_parents fs p = Inl e) \<longleftrightarrow> (\<exists>q. prefix q p \<and> is_file fs q)"
proof (induction fs p rule: mkdir_parents.induct)
  case (1 es)
  then show ?case by simp
next
  case (2 bs)
  then show ?case by auto
next
  case (3 bs c cs)
  have "mkdir_parents (File bs) (c # cs) = Inl NotADirectoryError"
    and "prefix [] (c # cs) \<and> is_file (File bs) []"
    by simp_all
  then show ?case by blast
next
  case (4 es c cs)
  show ?case
  proof (cases "map_of es c")
    case None
    have "\<not> is_file (Dir es) q" if "prefix q (c # cs)" for q
      using that None by (cases q) auto
    with None show ?thesis by auto
  next
    case (Some n)
    have "(\<exists>q. prefix q (c # cs) \<and> is_file (Dir es) q) \<longleftrightarrow> (\<exists>q. prefix q cs \<and> is_file n q)"
    proof
      assume "\<exists>q. prefix q (c # cs) \<and> is_file (Dir es) q"
      then obtain q where q: "prefix q (c # cs)" "is_file (Dir es) q" by blast
      then obtain q' where "q = c # q'" "prefix q' cs"
        by (cases q) auto
      with q Some show "\<exists>q. prefix q cs \<and> is_file n q" by auto
    next
      assume "\<exists>q. prefix q cs \<and> is_file n q"
      then obtain q where "prefix q cs" "is_file n q" by blast
      with Some have "prefix (c # q) (c # cs) \<and> is_file (Dir es) (c # q)" by simp
      then show "\<exists>q. prefix q (c # cs) \<and> is_file (Dir es) q" by blast
    qed
    with 4 Some show ?thesis
      by (auto split: sum.splits)
  qed
qed

lemma mkdir_parents_succeeds:
  "(\<forall>q. prefix q p \<longrightarrow> \<not> is_file fs q) \<Longrightarrow> \<exists>fs'. mkdir_parents fs p = Inr fs'"
  using mkdir_parents_fails [of fs p] by (cases "mkdir_parents fs p") auto


lemma mkdir_parents_keeps_dirs:
  assumes "mkdir_parents fs p = Inr fs'" and "is_dir fs q"
  shows "is_dir fs' q"
proof (cases "prefix q p")
  case True
  with assms(1) show ?thesis by (rule mkdir_parents_is_dir)
next
  case False
  with assms show ?thesis by (simp add: is_dir_def mkdir_parents_frame)
qed


section \<open>Properties of the builder\<close>

subsection \<open>\<open>ensure_build_dirs\<close>\<close>








subsection \<open>\<open>graft\<close>, \<open>write_text\<close> and \<open>rmtree\<close>\<close>

lemma graft_succeeds_iff:
  "(\<exists>fs'. graft fs p t = Inr fs') \<longleftrightarrow> p = [] \<or> is_dir fs (butlast p)"
proof (induction fs p t rule: graft.induct)
  case (3 es c cs t)
  then show ?case
    by (cases cs) (auto split: option.splits sum.splits)
qed auto

lemma graft_lookup:
  "graft fs p t = Inr fs' \<Longrightarrow> lookup fs' (p @ q) = lookup t q"
proof (induction fs p t arbitrary: fs' rule: graft.induct)
  case (3 es c cs t)
  then show ?case
    by (auto simp: update_conv' split: option.splits sum.splits if_splits)
qed auto

lemma graft_frame:
  "graft fs p t = Inr fs' \<Longrightarrow> \<not> prefix p q \<Longrightarrow> \<not> prefix q p \<Longrightarrow> lookup fs' q = lookup fs q"
proof (induction fs p t arbitrary: fs' q rule: graft.induct)
  case (3 es c cs t)
  then show ?case
    by (cases q) (auto simp: update_conv' split: option.splits sum.splits if_splits)
qed auto

lemma graft_above:
  "graft fs p t = Inr fs' \<Longrightarrow> strict_prefix q p \<Longrightarrow> is_dir fs' q \<and> is_dir fs q"
proof (induction fs p t arbitrary: fs' q rule: graft.induct)
  case (3 es c cs t)
  then show ?case
    by (cases q) (auto simp: update_conv' split: option.splits sum.splits if_splits)
qed auto

lemma rmtree_succeeds_iff:
  "(\<exists>fs'. rmtree fs p = Inr fs') \<longleftrightarrow> p \<noteq> [] \<and> is_dir fs p"
proof (induction fs p rule: rmtree.induct)
  case (3 es c cs)
  then show ?case
    by (cases cs) (auto split: option.splits sum.splits node.splits)
qed auto

lemma rmtree_gone:
  "rmtree fs p = Inr fs' \<Longrightarrow> lookup fs' (p @ q) = None"
proof (induction fs p arbitrary: fs' rule: rmtree.induct)
  case (3 es c cs)
  then show ?case
    by (auto simp: update_conv' delete_conv' split: option.splits sum.splits if_splits node.splits)
qed auto

lemma rmtree_frame:
  "rmtree fs p = Inr fs' \<Longrightarrow> \<not> prefix p q \<Longrightarrow> \<not> prefix q p \<Longrightarrow> lookup fs' q = lookup fs q"
proof (induction fs p arbitrary: fs' q rule: rmtree.induct)
  case (3 es c cs)
  then show ?case
    by (cases q)
      (auto simp: update_conv' delete_conv' split: option.splits sum.splits if_splits node.splits)
qed auto

lemma rmtree_above:
  "rmtree fs p = Inr fs' \<Longrightarrow> strict_prefix q p \<Longrightarrow> is_dir fs' q"
proof (induction fs p arbitrary: fs' q rule: rmtree.induct)
  case (3 es c cs)
  then show ?case
    by (cases q)
      (auto simp: update_conv' delete_conv' split: option.splits sum.splits if_splits node.splits)
qed auto







subsection \<open>\<open>render_template\<close>\<close>







subsection \<open>\<open>render_pages\<close>\<close>










section \<open>Properties of the utilities\<close>

lemma slice_to_prefix: "prefix (slice_to s n) s"
  by (simp add: slice_to_def take_is_prefix)

lemma slice_to_length:
  "int (length (slice_to s n)) =
     (if 0 \<le> n then min n (int (length s)) else max 0 (int (length s) + n))"
  by (auto simp: slice_to_def min_def max_def)

lemma get_file_hash_content:
  "stat fs p = Inr (File bs) \<Longrightarrow>
   get_file_hash H fs p algorithm =
     (case new H algorithm of
        Inl e \<Rightarrow> Inl e
      | Inr hash_func \<Rightarrow> Inr (hexdigest H (update_chunks H hash_func bs)))"
  by (simp add: get_file_hash_def open_rb_def split: sum.splits)

text \<open>
  C8, as the code has it. The digest depends on the bytes of the file alone: two paths,
  in one file system or in two, whose files hold the same bytes get the same result. The
  short form fails as the full form fails, and otherwise is the slice \<open>digest[:n]\<close> of
  the full \<open>md5\<close> digest: always a prefix of it, of length \<open>n\<close> when \<open>n\<close> lies
  between 0 and the digest's length, the whole digest when \<open>n\<close> is larger, and the
  digest without its last \<open>-n\<close> characters when \<open>n\<close> is negative.
\<close>

theorem C8_get_file_hash:
  "(stat fs p = Inr (File bs) \<and> stat fs' q = Inr (File bs) \<longrightarrow>
      get_file_hash H fs p algorithm = get_file_hash H fs' q algorithm)
   \<and> (\<forall>digest. get_file_hash H fs p ''md5'' = Inr digest \<longrightarrow>
         (\<exists>short. get_file_hash_short H fs p n = Inr short
            \<and> prefix short digest
            \<and> int (length short) =
                (if 0 \<le> n then min n (int (length digest)) else max 0 (int (length digest) + n))
            \<and> (0 \<le> n \<and> n \<le> int (length digest) \<longrightarrow> int (length short) = n)))
   \<and> (\<forall>e. get_file_hash H fs p ''md5'' = Inl e \<longrightarrow> get_file_hash_short H fs p n = Inl e)"
proof (intro conjI allI impI)
  assume "stat fs p = Inr (File bs) \<and> stat fs' q = Inr (File bs)"
  then show "get_file_hash H fs p algorithm = get_file_hash H fs' q algorithm"
    by (simp add: get_file_hash_content)
next
  fix digest
  assume "get_file_hash H fs p ''md5'' = Inr digest"
  then have short: "get_file_hash_short H fs p n = Inr (slice_to digest n)"
    by (simp add: get_file_hash_short_def)
  have "int (length (slice_to digest n)) = n" if "0 \<le> n \<and> n \<le> int (length digest)"
    using that by (simp add: slice_to_length)
  with short slice_to_prefix [of digest n] slice_to_length [of digest n]
  show "\<exists>short. get_file_hash_short H fs p n = Inr short
            \<and> prefix short digest
            \<and> int (length short) =
                (if 0 \<le> n then min n (int (length digest)) else max 0 (int (length digest) + n))
            \<and> (0 \<le> n \<and> n \<le> int (length digest) \<longrightarrow> int (length short) = n)"
    by blast
next
  fix e
  assume "get_file_hash H fs p ''md5'' = Inl e"
  then show "get_file_hash_short H fs p n = Inl e"
    by (simp add: get_file_hash_short_def)
qed

theorem C8_get_file_hash_witness:
  "get_file_hash hashlib_double hash_project [''project'', ''test.txt''] ''md5''
     = Inr ''5eb63bbbe01eeed093cb22bb8f5acdc3''
   \<and> get_file_hash hashlib_double hash_project [''project'', ''copy.txt''] ''md5''
       = Inr ''5eb63bbbe01eeed093cb22bb8f5acdc3''
   \<and> get_file_hash_short hashlib_double hash_project [''project'', ''test.txt''] 8
       = Inr ''5eb63bbb''"
proof -
  let ?p = "[''project'', ''test.txt'']" and ?q = "[''project'', ''copy.txt'']"
  have full: "get_file_hash hashlib_double hash_project ?p ''md5''
      = Inr ''5eb63bbbe01eeed093cb22bb8f5acdc3''"
    by code_simp
  have files: "stat hash_project ?p = Inr (File ''hello world'')
      \<and> stat hash_project ?q = Inr (File ''hello world'')"
    by code_simp
  note same =
    C8_get_file_hash [of hash_project ?p "''hello world''" hash_project ?q hashlib_double "''md5''" 8,
      THEN conjunct1, THEN mp, OF files]
  have short: "get_file_hash_short hashlib_double hash_project ?p 8 = Inr ''5eb63bbb''"
    by code_simp
  from full same short show ?thesis
    by simp
qed

text \<open>
  The digest of the test suite's file has 32 characters, and so has the short form asked
  for 40 characters.
\<close>

theorem C8_short_hash_counterexample:
  "get_file_hash hashlib_double hash_project [''project'', ''test.txt''] ''md5''
     = Inr ''5eb63bbbe01eeed093cb22bb8f5acdc3''
   \<and> get_file_hash_short hashlib_double hash_project [''project'', ''test.txt''] 40
       = Inr ''5eb63bbbe01eeed093cb22bb8f5acdc3''
   \<and> int (length ''5eb63bbbe01eeed093cb22bb8f5acdc3'') \<noteq> 40"
  by code_simp


section \<open>Lemmas about paths and patterns\<close>

lemma joinpath_static [simp]: "joinpath base ''static'' = base @ [''static'']"
  by (simp add: joinpath_def is_absolute_def parts_def)

lemma fnmatchcase_literal:
  "CHR ''*'' \<notin> set l \<Longrightarrow> CHR ''?'' \<notin> set l \<Longrightarrow> fnmatchcase s l = (s = l)"
  by (induction s l rule: fnmatchcase.induct) auto

lemma fnmatchcase_star_literal:
  assumes "CHR ''*'' \<notin> set l" and "CHR ''?'' \<notin> set l"
  shows "fnmatchcase s (CHR ''*'' # l) = suffix l s"
proof (induction s)
  case Nil
  from assms show ?case
    by (cases l) (auto simp: fnmatchcase_literal)
next
  case (Cons c cs)
  with assms show ?case
    by (auto simp: fnmatchcase_literal suffix_Cons)
qed

text \<open>The pattern \<open>*.css\<close> matches an entry exactly when its name ends in \<open>.css\<close>.\<close>

lemma path_match_css: "path_match (dir @ [name]) ''*.css'' = Inr (suffix ''.css'' name)"
proof -
  have "parts ''*.css'' = [''*.css'']"
    by (simp add: parts_def)
  moreover have "fnmatchcase name ''*.css'' = suffix ''.css'' name"
    by (rule fnmatchcase_star_literal) simp_all
  ultimately show ?thesis
    by (simp add: path_match_def is_absolute_def)
qed

lemma any_match_css:
  "any_match path_match (dir @ [name]) [''*.css''] = Inr (suffix ''.css'' name)"
  by (simp add: path_match_css)


subsection \<open>Paths apart\<close>

lemma apart_sym: "apart p q \<Longrightarrow> apart q p"
  by (simp add: apart_def)

lemma apart_append: "apart p q \<Longrightarrow> apart (p @ x) (q @ y)"
proof -
  assume a: "apart p q"
  have "\<not> prefix (p @ x) (q @ y)"
  proof
    assume "prefix (p @ x) (q @ y)"
    then have "prefix p (q @ y)"
      using append_prefixD by blast
    moreover have "prefix q (q @ y)" by simp
    ultimately have "prefix p q \<or> prefix q p"
      by (rule prefix_same_cases)
    with a show False by (simp add: apart_def)
  qed
  moreover have "\<not> prefix (q @ y) (p @ x)"
  proof
    assume "prefix (q @ y) (p @ x)"
    then have "prefix q (p @ x)"
      using append_prefixD by blast
    moreover have "prefix p (p @ x)" by simp
    ultimately have "prefix q p \<or> prefix p q"
      by (rule prefix_same_cases)
    with a show False by (auto simp: apart_def)
  qed
  ultimately show ?thesis by (simp add: apart_def)
qed

lemma apart_siblings: "n \<noteq> m \<Longrightarrow> apart (d @ n # x) (d @ m # y)"
  by (simp add: apart_def)

lemma apart_lower: "apart p q \<Longrightarrow> \<not> prefix (p @ x) q"
  by (auto simp: apart_def dest: append_prefixD)

subsection \<open>\<open>copytree\<close>, \<open>copy2\<close> and the copy of one entry\<close>

lemma mkdir_parents_new:
  assumes "\<not> exists fs p" and "is_dir fs (butlast p)"
  shows "\<exists>fs'. mkdir_parents fs p = Inr fs'"
proof (rule mkdir_parents_succeeds, intro allI impI)
  fix q
  assume "prefix q p"
  then consider "q = p" | "prefix q (butlast p)"
    by (metis prefix_order.order_refl prefix_snoc snoc_eq_iff_butlast butlast.simps(1) prefix_bot.extremum_uniqueI)
  then show "\<not> is_file fs q"
  proof cases
    case 1
    with assms(1) show ?thesis by (simp add: exists_kinds)
  next
    case 2
    with assms(2) have "is_dir fs q" by (rule is_dir_prefix)
    then show ?thesis by (rule not_dir_and_file)
  qed
qed

lemma copytree_correct:
  assumes src: "lookup fs src = Some (Dir es)"
    and new: "\<not> exists fs dst"
    and par: "is_dir fs (butlast dst)"
  shows "\<exists>fs'. copytree fs src dst = Inr fs'
    \<and> lookup fs' dst = Some (Dir es)
    \<and> (\<forall>q. \<not> prefix dst q \<longrightarrow> \<not> prefix q dst \<longrightarrow> lookup fs' q = lookup fs q)"
proof -
  from new par obtain fs1 where mk: "mkdir_parents fs dst = Inr fs1"
    using mkdir_parents_new by blast
  from mk par have "is_dir fs1 (butlast dst)"
    by (rule mkdir_parents_keeps_dirs)
  then obtain fs2 where gr: "graft fs1 dst (Dir es) = Inr fs2"
    using graft_succeeds_iff [of fs1 dst "Dir es"] by blast
  from src new mk gr have run: "copytree fs src dst = Inr fs2"
    by (simp add: copytree_def stat_lookup [symmetric])
  from gr have "lookup fs2 dst = Some (Dir es)"
    using graft_lookup [of fs1 dst "Dir es" fs2 "[]"] by simp
  moreover have "lookup fs2 q = lookup fs q" if "\<not> prefix dst q" "\<not> prefix q dst" for q
    using that graft_frame [OF gr, of q] mkdir_parents_frame [OF mk, of q] by simp
  ultimately show ?thesis
    using run by blast
qed

lemma copytree_above:
  "copytree fs src dst = Inr fs' \<Longrightarrow> strict_prefix q dst \<Longrightarrow> is_dir fs' q"
  by (auto simp: copytree_def split: sum.splits node.splits if_splits dest: graft_above)

lemma copy2_above:
  "copy2 fs src dst = Inr fs' \<Longrightarrow> strict_prefix q dst \<Longrightarrow> is_dir fs' q"
proof -
  assume run: "copy2 fs src dst = Inr fs'" and q: "strict_prefix q dst"
  from run obtain dst' s where g: "graft fs dst' (File s) = Inr fs'" and "prefix dst dst'"
    by (auto simp: copy2_def Let_def write_text_def split: sum.splits node.splits if_splits)
  with q have "strict_prefix q dst'"
    using prefix_order.less_le_trans by blast
  with g show ?thesis
    using graft_above by blast
qed

lemma copy2_correct:
  assumes src: "lookup fs src = Some (File bs)"
    and nd: "\<not> is_dir fs dst"
    and par: "is_dir fs (butlast dst)"
    and ne: "src \<noteq> dst"
  shows "\<exists>fs'. copy2 fs src dst = Inr fs'
    \<and> lookup fs' dst = Some (File bs)
    \<and> (\<forall>q. \<not> prefix dst q \<longrightarrow> \<not> prefix q dst \<longrightarrow> lookup fs' q = lookup fs q)"
proof -
  from par obtain fs' where gr: "graft fs dst (File bs) = Inr fs'"
    using graft_succeeds_iff [of fs dst "File bs"] by blast
  with src nd ne have run: "copy2 fs src dst = Inr fs'"
    by (simp add: copy2_def write_text_def stat_lookup [symmetric])
  from gr have "lookup fs' dst = Some (File bs)"
    using graft_lookup [of fs dst "File bs" fs' "[]"] by simp
  moreover have "lookup fs' q = lookup fs q" if "\<not> prefix dst q" "\<not> prefix q dst" for q
    using that graft_frame [OF gr, of q] by simp
  ultimately show ?thesis
    using run by blast
qed


lemma kinds_cong:
  "lookup fs' p = lookup fs q \<Longrightarrow>
     is_dir fs' p = is_dir fs q \<and> is_file fs' p = is_file fs q \<and> exists fs' p = exists fs q"
  by (simp add: is_dir_def is_file_def exists_def)

text \<open>
  One entry, with source and destination apart and no clash of kinds at the destination:
  the copy succeeds, the destination becomes what the source is, and nothing changes
  outside the destination entry.
\<close>

lemma copy_item_correct:
  assumes ap: "apart S D" and D: "is_dir fs D" and ex: "exists fs (S @ [n])"
    and c1: "is_dir fs (S @ [n]) \<longrightarrow> \<not> is_file fs (D @ [n])"
    and c2: "is_file fs (S @ [n]) \<longrightarrow> \<not> is_dir fs (D @ [n])"
  shows "\<exists>fs'. copy_item fs (S @ [n]) (D @ [n]) = (Inr (), fs')
    \<and> lookup fs' (D @ [n]) = lookup fs (S @ [n])
    \<and> (\<forall>q. \<not> prefix (D @ [n]) q \<longrightarrow> \<not> prefix q D \<longrightarrow> lookup fs' q = lookup fs q)
    \<and> is_dir fs' D"
proof -
  let ?item = "S @ [n]" and ?dest = "D @ [n]"
  from ap have ap': "apart ?item ?dest"
    by (rule apart_append)
  have above: "strict_prefix D ?dest"
    by (simp add: strict_prefix_def)
  have outside: "\<not> prefix q ?dest" if "\<not> prefix ?dest q" "\<not> prefix q D" for q
    using that by (auto simp: prefix_snoc)
  show ?thesis
  proof (cases "is_dir fs ?item")
    case True
    then obtain es where src: "lookup fs ?item = Some (Dir es)"
      by (auto simp: is_dir_lookup)
    have "\<exists>fs1. (if exists fs ?dest then rmtree fs ?dest else Inr fs) = Inr fs1
        \<and> \<not> exists fs1 ?dest
        \<and> (\<forall>q. \<not> prefix ?dest q \<longrightarrow> \<not> prefix q ?dest \<longrightarrow> lookup fs1 q = lookup fs q)
        \<and> is_dir fs1 D"
    proof (cases "exists fs ?dest")
      case False
      with D show ?thesis by simp
    next
      case ex_dest: True
      with True c1 have "is_dir fs ?dest"
        by (simp add: exists_kinds)
      then obtain fs1 where rm: "rmtree fs ?dest = Inr fs1"
        using rmtree_succeeds_iff [of fs ?dest] by auto
      from rm have "lookup fs1 ?dest = None"
        using rmtree_gone [of fs ?dest fs1 "[]"] by simp
      then have "\<not> exists fs1 ?dest"
        by (simp add: exists_lookup)
      moreover have "lookup fs1 q = lookup fs q" if "\<not> prefix ?dest q" "\<not> prefix q ?dest" for q
        using rm that by (rule rmtree_frame)
      moreover from rm above have "is_dir fs1 D"
        by (rule rmtree_above)
      ultimately show ?thesis
        using ex_dest rm by auto
    qed
    then obtain fs1 where
      rm: "(if exists fs ?dest then rmtree fs ?dest else Inr fs) = Inr fs1"
      and gone: "\<not> exists fs1 ?dest"
      and fr1: "\<And>q. \<not> prefix ?dest q \<Longrightarrow> \<not> prefix q ?dest \<Longrightarrow> lookup fs1 q = lookup fs q"
      and D1: "is_dir fs1 D"
      by blast
    from ap' have "lookup fs1 ?item = lookup fs ?item"
      by (intro fr1) (simp_all add: apart_def)
    with src have src1: "lookup fs1 ?item = Some (Dir es)"
      by simp
    from D1 have "is_dir fs1 (butlast ?dest)"
      by simp
    from copytree_correct [OF src1 gone this] obtain fs2 where
      ct: "copytree fs1 ?item ?dest = Inr fs2"
      and res: "lookup fs2 ?dest = Some (Dir es)"
      and fr2: "\<And>q. \<not> prefix ?dest q \<Longrightarrow> \<not> prefix q ?dest \<Longrightarrow> lookup fs2 q = lookup fs1 q"
      by blast
    from True rm ct have "copy_item fs ?item ?dest = (Inr (), fs2)"
      by (simp add: copy_item_def)
    moreover from res src have "lookup fs2 ?dest = lookup fs ?item"
      by simp
    moreover have "lookup fs2 q = lookup fs q" if "\<not> prefix ?dest q" "\<not> prefix q D" for q
      using that fr1 [of q] fr2 [of q] outside [of q] by simp
    moreover from ct above have "is_dir fs2 D"
      by (rule copytree_above)
    ultimately show ?thesis
      by blast
  next
    case False
    with ex have f: "is_file fs ?item"
      by (simp add: exists_kinds)
    then obtain bs where src: "lookup fs ?item = Some (File bs)"
      by (auto simp: is_file_lookup)
    from f c2 have nd: "\<not> is_dir fs ?dest"
      by simp
    from D have par: "is_dir fs (butlast ?dest)"
      by simp
    from ap' have ne: "?item \<noteq> ?dest"
      by (auto simp: apart_def)
    from copy2_correct [OF src nd par ne] obtain fs1 where
      cp: "copy2 fs ?item ?dest = Inr fs1"
      and res: "lookup fs1 ?dest = Some (File bs)"
      and fr: "\<And>q. \<not> prefix ?dest q \<Longrightarrow> \<not> prefix q ?dest \<Longrightarrow> lookup fs1 q = lookup fs q"
      by blast
    from False cp have "copy_item fs ?item ?dest = (Inr (), fs1)"
      by (simp add: copy_item_def)
    moreover from res src have "lookup fs1 ?dest = lookup fs ?item"
      by simp
    moreover have "lookup fs1 q = lookup fs q" if "\<not> prefix ?dest q" "\<not> prefix q D" for q
      using that fr [of q] outside [of q] by simp
    moreover from cp above have "is_dir fs1 D"
      by (rule copy2_above)
    ultimately show ?thesis
      by blast
  qed
qed


subsection \<open>The loop of \<open>copy_static_assets\<close>\<close>

lemma copy_items_Cons:
  "copy_items m S D pats fs (n # names) =
     (case any_match m (S @ [n]) pats of
        Inl e \<Rightarrow> (Inl e, fs)
      | Inr True \<Rightarrow> copy_items m S D pats fs names
      | Inr False \<Rightarrow>
          (case copy_item fs (S @ [n]) (D @ [n]) of
             (Inl e, fs1) \<Rightarrow> (Inl e, fs1)
           | (Inr u, fs1) \<Rightarrow> copy_items m S D pats fs1 names))"
  by (simp split: sum.splits)

text \<open>
  With source and destination apart, a matcher that rejects no pattern and no clash of
  kinds at the destinations, the loop succeeds: the destination of every entry that is
  not excluded becomes what the source entry is, and every path outside these
  destinations and not above the destination directory is left as it was.
\<close>

lemma copy_items_correct:
  assumes ap: "apart S D"
  shows "is_dir fs D \<Longrightarrow>
    \<forall>n\<in>set names. exists fs (S @ [n]) \<Longrightarrow>
    \<forall>n\<in>set names. \<exists>x. any_match m (S @ [n]) pats = Inr x \<Longrightarrow>
    \<forall>n\<in>set names. any_match m (S @ [n]) pats = Inr False \<longrightarrow>
       (is_dir fs (S @ [n]) \<longrightarrow> \<not> is_file fs (D @ [n]))
       \<and> (is_file fs (S @ [n]) \<longrightarrow> \<not> is_dir fs (D @ [n])) \<Longrightarrow>
    \<exists>fs'. copy_items m S D pats fs names = (Inr (), fs')
      \<and> (\<forall>n\<in>set names. any_match m (S @ [n]) pats = Inr False \<longrightarrow>
            lookup fs' (D @ [n]) = lookup fs (S @ [n]))
      \<and> (\<forall>q. (\<forall>n\<in>set names. any_match m (S @ [n]) pats = Inr False \<longrightarrow> \<not> prefix (D @ [n]) q)
            \<longrightarrow> \<not> prefix q D \<longrightarrow> lookup fs' q = lookup fs q)
      \<and> is_dir fs' D"
proof (induction names arbitrary: fs)
  case Nil
  then show ?case by simp
next
  case (Cons n names)
  let ?keep = "\<lambda>n. any_match m (S @ [n]) pats = Inr False"
  from Cons.prems(3) obtain x where x: "any_match m (S @ [n]) pats = Inr x"
    by auto
  show ?case
  proof (cases x)
    case True
    with x have skip: "copy_items m S D pats fs (n # names) = copy_items m S D pats fs names"
      by (simp add: copy_items_Cons del: copy_items.simps)
    from True x have nk: "\<not> ?keep n"
      by simp
    from Cons.prems have "\<exists>fs'. copy_items m S D pats fs names = (Inr (), fs')
      \<and> (\<forall>n\<in>set names. ?keep n \<longrightarrow> lookup fs' (D @ [n]) = lookup fs (S @ [n]))
      \<and> (\<forall>q. (\<forall>n\<in>set names. ?keep n \<longrightarrow> \<not> prefix (D @ [n]) q)
            \<longrightarrow> \<not> prefix q D \<longrightarrow> lookup fs' q = lookup fs q)
      \<and> is_dir fs' D"
      by (intro Cons.IH) simp_all
    then obtain fs' where
      run: "copy_items m S D pats fs names = (Inr (), fs')"
      and res: "\<And>k. k \<in> set names \<Longrightarrow> ?keep k \<Longrightarrow> lookup fs' (D @ [k]) = lookup fs (S @ [k])"
      and fr: "\<And>q. (\<forall>n\<in>set names. ?keep n \<longrightarrow> \<not> prefix (D @ [n]) q)
            \<Longrightarrow> \<not> prefix q D \<Longrightarrow> lookup fs' q = lookup fs q"
      and D': "is_dir fs' D"
      by blast
    have r_all: "lookup fs' (D @ [k]) = lookup fs (S @ [k])"
      if "k \<in> set (n # names)" "?keep k" for k
      using that nk res by auto
    have f_all: "lookup fs' q = lookup fs q"
      if "\<forall>k\<in>set (n # names). ?keep k \<longrightarrow> \<not> prefix (D @ [k]) q" "\<not> prefix q D" for q
      using that by (intro fr) simp_all
    from skip run have "copy_items m S D pats fs (n # names) = (Inr (), fs')"
      by simp
    moreover from r_all have "\<forall>k\<in>set (n # names). ?keep k \<longrightarrow>
        lookup fs' (D @ [k]) = lookup fs (S @ [k])"
      by blast
    moreover from f_all have
      "\<forall>q. (\<forall>k\<in>set (n # names). ?keep k \<longrightarrow> \<not> prefix (D @ [k]) q)
         \<longrightarrow> \<not> prefix q D \<longrightarrow> lookup fs' q = lookup fs q"
      by blast
    ultimately show ?thesis
      using D' by (intro exI [of _ fs'] conjI)
  next
    case False
    with x have keep: "?keep n"
      by simp
    from Cons.prems keep have
      "\<exists>fs1. copy_item fs (S @ [n]) (D @ [n]) = (Inr (), fs1)
        \<and> lookup fs1 (D @ [n]) = lookup fs (S @ [n])
        \<and> (\<forall>q. \<not> prefix (D @ [n]) q \<longrightarrow> \<not> prefix q D \<longrightarrow> lookup fs1 q = lookup fs q)
        \<and> is_dir fs1 D"
      by (intro copy_item_correct [OF ap]) simp_all
    then obtain fs1 where
      step: "copy_item fs (S @ [n]) (D @ [n]) = (Inr (), fs1)"
      and res1: "lookup fs1 (D @ [n]) = lookup fs (S @ [n])"
      and fr1: "\<And>q. \<not> prefix (D @ [n]) q \<Longrightarrow> \<not> prefix q D \<Longrightarrow> lookup fs1 q = lookup fs q"
      and D1: "is_dir fs1 D"
      by blast
    from keep step have unfold:
      "copy_items m S D pats fs (n # names) = copy_items m S D pats fs1 names"
      by (simp add: copy_items_Cons del: copy_items.simps)
    have src: "lookup fs1 (S @ [k]) = lookup fs (S @ [k])" for k
    proof (rule fr1)
      from ap have "apart (D @ [n]) (S @ [k])"
        using apart_append apart_sym by blast
      then show "\<not> prefix (D @ [n]) (S @ [k])"
        by (simp add: apart_def)
      from ap show "\<not> prefix (S @ [k]) D"
        by (rule apart_lower)
    qed
    have dst: "lookup fs1 (D @ [k]) = lookup fs (D @ [k])" if "k \<noteq> n" for k
      using that by (intro fr1) simp_all
    have p1: "\<forall>k\<in>set names. exists fs1 (S @ [k])"
      using Cons.prems(2) kinds_cong [OF src] by simp
    have p2: "\<forall>k\<in>set names. \<exists>x. any_match m (S @ [k]) pats = Inr x"
      using Cons.prems(3) by simp
    have p3: "\<forall>k\<in>set names. ?keep k \<longrightarrow>
        (is_dir fs1 (S @ [k]) \<longrightarrow> \<not> is_file fs1 (D @ [k]))
        \<and> (is_file fs1 (S @ [k]) \<longrightarrow> \<not> is_dir fs1 (D @ [k]))"
    proof (intro ballI impI)
      fix k
      assume k: "k \<in> set names" "?keep k"
      show "(is_dir fs1 (S @ [k]) \<longrightarrow> \<not> is_file fs1 (D @ [k]))
        \<and> (is_file fs1 (S @ [k]) \<longrightarrow> \<not> is_dir fs1 (D @ [k]))"
      proof (cases "k = n")
        case True
        from res1 src [of n] have "lookup fs1 (D @ [n]) = lookup fs1 (S @ [n])"
          by simp
        from kinds_cong [OF this] True show ?thesis
          using not_dir_and_file by blast
      next
        case False
        from k Cons.prems(4) have
          "(is_dir fs (S @ [k]) \<longrightarrow> \<not> is_file fs (D @ [k]))
           \<and> (is_file fs (S @ [k]) \<longrightarrow> \<not> is_dir fs (D @ [k]))"
          by simp
        with kinds_cong [OF src [of k]] kinds_cong [OF dst [OF False]] show ?thesis
          by simp
      qed
    qed
    from Cons.IH [OF D1 p1 p2 p3] obtain fs' where
      run: "copy_items m S D pats fs1 names = (Inr (), fs')"
      and res: "\<And>k. k \<in> set names \<Longrightarrow> ?keep k \<Longrightarrow> lookup fs' (D @ [k]) = lookup fs1 (S @ [k])"
      and fr: "\<And>q. (\<forall>n\<in>set names. ?keep n \<longrightarrow> \<not> prefix (D @ [n]) q)
            \<Longrightarrow> \<not> prefix q D \<Longrightarrow> lookup fs' q = lookup fs1 q"
      and D': "is_dir fs' D"
      by blast
    have r_all: "lookup fs' (D @ [k]) = lookup fs (S @ [k])"
      if k: "k \<in> set (n # names)" "?keep k" for k
    proof (cases "k \<in> set names")
      case True
      with k res [of k] src [of k] show ?thesis
        by simp
    next
      case False
      with k have kn: "k = n"
        by simp
      have "lookup fs' (D @ [n]) = lookup fs1 (D @ [n])"
      proof (rule fr)
        show "\<forall>j\<in>set names. ?keep j \<longrightarrow> \<not> prefix (D @ [j]) (D @ [n])"
          using False kn by auto
        show "\<not> prefix (D @ [n]) D"
          by simp
      qed
      with res1 kn show ?thesis
        by simp
    qed
    have f_all: "lookup fs' q = lookup fs q"
      if "\<forall>k\<in>set (n # names). ?keep k \<longrightarrow> \<not> prefix (D @ [k]) q" "\<not> prefix q D" for q
    proof -
      from that keep have "\<not> prefix (D @ [n]) q"
        by simp
      with that(2) have "lookup fs1 q = lookup fs q"
        by (intro fr1)
      moreover from that have "lookup fs' q = lookup fs1 q"
        by (intro fr) simp_all
      ultimately show ?thesis
        by simp
    qed
    from unfold run have "copy_items m S D pats fs (n # names) = (Inr (), fs')"
      by simp
    moreover from r_all have "\<forall>k\<in>set (n # names). ?keep k \<longrightarrow>
        lookup fs' (D @ [k]) = lookup fs (S @ [k])"
      by blast
    moreover from f_all have
      "\<forall>q. (\<forall>k\<in>set (n # names). ?keep k \<longrightarrow> \<not> prefix (D @ [k]) q)
         \<longrightarrow> \<not> prefix q D \<longrightarrow> lookup fs' q = lookup fs q"
      by blast
    ultimately show ?thesis
      using D' by (intro exI [of _ fs'] conjI)
  qed
qed


lemma iterdir_children:
  assumes "iterdir fs p = Inr names" and "n \<in> set names"
  shows "exists fs (p @ [n])"
proof -
  from assms(1) obtain es where "stat fs p = Inr (Dir es)" and names: "names = map fst es"
    by (auto simp: iterdir_def split: sum.splits node.splits)
  then have es: "lookup fs p = Some (Dir es)"
    by (simp add: lookup_def)
  from assms(2) names have "map_of es n \<noteq> None"
    by (simp add: map_of_eq_None_iff)
  with es show ?thesis
    by (auto simp: exists_lookup lookup_append)
qed

lemma iterdir_cong:
  assumes "iterdir fs p = Inr names" and "lookup fs' p = lookup fs p"
  shows "iterdir fs' p = Inr names"
proof -
  from assms(1) obtain es where es: "stat fs p = Inr (Dir es)" and names: "names = map fst es"
    by (auto simp: iterdir_def split: sum.splits node.splits)
  from es assms(2) have "lookup fs' p = Some (Dir es)"
    by (simp add: lookup_def)
  then have "stat fs' p = Inr (Dir es)"
    by (simp add: lookup_def split: sum.splits)
  with names show ?thesis
    by (simp add: iterdir_def)
qed

lemma prefixes_all: "(\<forall>q. prefix q p \<longrightarrow> P q) \<longleftrightarrow> list_all P (prefixes p)"
  by (auto simp: list_all_iff in_set_prefixes)

text \<open>
  The whole operation, with the static directory and \<open>build_dir/static\<close> apart: it
  succeeds, every entry that is not excluded is at its destination what it is in the
  source, all the way down, and the destination of an excluded entry is as it was.
\<close>

lemma copy_static_assets_correct:
  fixes b :: "'v SiteBuilder"
  defines "S \<equiv> static_dir b" and "D \<equiv> build_dir b @ [''static'']"
  assumes ap: "apart S D"
    and ls: "iterdir fs S = Inr names"
    and free: "\<forall>q. prefix q D \<longrightarrow> \<not> is_file fs q"
    and pats: "pats = (case exclude_patterns of None \<Rightarrow> [] | Some ps \<Rightarrow> ps)"
    and total: "\<forall>n\<in>set names. \<exists>x. any_match m (S @ [n]) pats = Inr x"
    and compat: "\<forall>n\<in>set names. any_match m (S @ [n]) pats = Inr False \<longrightarrow>
       (is_dir fs (S @ [n]) \<longrightarrow> \<not> is_file fs (D @ [n]))
       \<and> (is_file fs (S @ [n]) \<longrightarrow> \<not> is_dir fs (D @ [n]))"
  shows "\<exists>fs'. copy_static_assets m b fs exclude_patterns = (Inr (), fs')
    \<and> (\<forall>n\<in>set names. \<forall>q. lookup fs' (D @ n # q) =
          (if any_match m (S @ [n]) pats = Inr False then lookup fs (S @ n # q)
           else lookup fs (D @ n # q)))
    \<and> is_dir fs' D"
proof -
  let ?keep = "\<lambda>n. any_match m (S @ [n]) pats = Inr False"
  from ls have exS: "exists fs S"
    by (auto simp: iterdir_def exists_lookup lookup_def split: sum.splits)
  from free obtain fs1 where mk: "mkdir_parents fs D = Inr fs1"
    using mkdir_parents_succeeds by blast
  have fr0: "lookup fs1 q = lookup fs q" if "\<not> prefix q D" for q
    using mk that by (rule mkdir_parents_frame)
  from mk have D1: "is_dir fs1 D"
    by (rule mkdir_parents_is_dir) simp
  from ap have "\<not> prefix S D"
    by (simp add: apart_def)
  then have "lookup fs1 S = lookup fs S"
    by (rule fr0)
  with ls have ls1: "iterdir fs1 S = Inr names"
    by (rule iterdir_cong)
  have src: "lookup fs1 (S @ x) = lookup fs (S @ x)" for x
    using ap by (intro fr0) (rule apart_lower)
  have dst: "lookup fs1 (D @ k # x) = lookup fs (D @ k # x)" for k x
    by (intro fr0) simp
  have p1: "\<forall>n\<in>set names. exists fs1 (S @ [n])"
    using iterdir_children [OF ls1] by blast
  have p3: "\<forall>n\<in>set names. ?keep n \<longrightarrow>
       (is_dir fs1 (S @ [n]) \<longrightarrow> \<not> is_file fs1 (D @ [n]))
       \<and> (is_file fs1 (S @ [n]) \<longrightarrow> \<not> is_dir fs1 (D @ [n]))"
    using compat kinds_cong [OF src] kinds_cong [OF dst] by simp
  from copy_items_correct [OF ap D1 p1 total p3] obtain fs' where
    run: "copy_items m S D pats fs1 names = (Inr (), fs')"
    and res: "\<And>k. k \<in> set names \<Longrightarrow> ?keep k \<Longrightarrow> lookup fs' (D @ [k]) = lookup fs1 (S @ [k])"
    and fr: "\<And>q. (\<forall>n\<in>set names. ?keep n \<longrightarrow> \<not> prefix (D @ [n]) q)
            \<Longrightarrow> \<not> prefix q D \<Longrightarrow> lookup fs' q = lookup fs1 q"
    and D': "is_dir fs' D"
    by blast
  from exS mk ls1 run have "copy_static_assets m b fs exclude_patterns = (Inr (), fs')"
    by (simp add: copy_static_assets_def S_def D_def pats)
  moreover have "lookup fs' (D @ n # q) =
      (if ?keep n then lookup fs (S @ n # q) else lookup fs (D @ n # q))"
    if n: "n \<in> set names" for n q
  proof (cases "?keep n")
    case True
    with n res [of n] src [of "[n]"] have "lookup fs' (D @ [n]) = lookup fs (S @ [n])"
      by simp
    then have "lookup fs' ((D @ [n]) @ q) = lookup fs ((S @ [n]) @ q)"
      by (simp only: lookup_append)
    with True show ?thesis
      by simp
  next
    case False
    have "lookup fs' (D @ n # q) = lookup fs1 (D @ n # q)"
    proof (rule fr)
      show "\<forall>k\<in>set names. ?keep k \<longrightarrow> \<not> prefix (D @ [k]) (D @ n # q)"
        using False by auto
      show "\<not> prefix (D @ n # q) D"
        by simp
    qed
    with False dst [of n q] show ?thesis
      by simp
  qed
  ultimately show ?thesis
    using D' by (intro exI [of _ fs'] conjI ballI allI)
qed

text \<open>Whatever happens to the entries, the destination directory stays.\<close>

lemma copy_item_keeps_dest:
  assumes "is_dir fs D"
  shows "is_dir (snd (copy_item fs item (D @ [n]))) D"
proof -
  have above: "strict_prefix D (D @ [n])"
    by (simp add: strict_prefix_def)
  have rm: "is_dir fs1 D"
    if "(if exists fs (D @ [n]) then rmtree fs (D @ [n]) else Inr fs) = Inr fs1" for fs1
    using that assms above by (auto split: if_splits dest: rmtree_above)
  show ?thesis
    using assms above rm
    by (auto simp: copy_item_def split: sum.splits dest: copytree_above copy2_above)
qed

lemma copy_items_keep_dest:
  "is_dir fs D \<Longrightarrow> is_dir (snd (copy_items m S D pats fs names)) D"
proof (induction names arbitrary: fs)
  case Nil
  then show ?case by simp
next
  case (Cons n names)
  from Cons.prems have "is_dir (snd (copy_item fs (S @ [n]) (D @ [n]))) D"
    by (rule copy_item_keeps_dest)
  with Cons show ?case
    by (auto simp: copy_items_Cons simp del: copy_items.simps split: sum.splits bool.splits prod.splits)
qed

lemma copy_items_all_excluded:
  "\<forall>n\<in>set names. any_match m (S @ [n]) pats = Inr True \<Longrightarrow>
   copy_items m S D pats fs names = (Inr (), fs)"
  by (induction names) simp_all


end
